theory Spec2Isabelle
  imports Main
begin

section \<open>Exceptions\<close>

text \<open>
  Every exception the two modules can raise is a value. A function that may raise returns
  \<open>error + 'a\<close>, with \<open>Inl\<close> for the exception.
\<close>

datatype error =
    OSError
  | OverflowError
  | UserWarning string
  | RenderError
  | JobError string
  | NoNodeError
  | AssertionError
  | InvalidTransition

section \<open>The bash plugin: \<open>scheduler/plugins/bash_plugin.py\<close>\<close>

subsection \<open>The operating system as the plugin sees it\<close>

text \<open>
  A process id is a Python int. The process table lists every live process with the id
  of its parent. The library calls a function issues are recorded, in order, in
  \<open>calls\<close>; log records are kept in \<open>logs\<close> as pairs of level and message.
\<close>

type_synonym pid = int

type_synonym ptable = "(pid \<times> pid) list"

datatype call =
    Popen_call string bool
  | Signal_call
  | Alarm_call int
  | Communicate_call
  | Ps_call pid
  | Kill_call pid

record world =
  procs :: ptable
  calls :: "call list"
  logs :: "(string \<times> string) list"

definition log_call :: "call \<Rightarrow> world \<Rightarrow> world" where
  "log_call c w = w\<lparr>calls := calls w @ [c]\<rparr>"

definition log_msg :: "string \<Rightarrow> string \<Rightarrow> world \<Rightarrow> world" where
  "log_msg level msg w = w\<lparr>logs := logs w @ [(level, msg)]\<rparr>"

text \<open>
  \<open>os.kill(pid, SIGKILL)\<close>: a live process is removed from the table and its children
  are handed to process 1; for a process that is gone the call raises \<open>OSError\<close>
  (no such process).
\<close>

definition os_kill :: "pid \<Rightarrow> ptable \<Rightarrow> error + ptable" where
  "os_kill pid tbl =
     (if pid \<in> fst ` set tbl
      then Inr (map (\<lambda>(q, pp). (q, if pp = pid then 1 else pp))
                  (filter (\<lambda>(q, pp). q \<noteq> pid) tbl))
      else Inl OSError)"

text \<open>
  What happens outside the code while one call of \<open>run\<close> is in progress:
  \<^item> \<open>popen_raises\<close>: whether \<open>Popen\<close> fails to start the child and raises
    \<open>OSError\<close>;
  \<^item> \<open>child_pid\<close>: the id \<open>Popen\<close> gives the child;
  \<^item> \<open>child_exit\<close>: the return code and the captured output of the child if it ever
    exits by itself, \<open>None\<close> if it never does; a child that a signal \<open>N\<close> has
    killed has the return code \<open>-N\<close>;
  \<^item> \<open>alarm_first n\<close>: whether, with an alarm scheduled \<open>n\<close> seconds ahead, SIGALRM
    is delivered while \<open>run\<close> is still inside its \<open>try\<close> block;
  \<^item> \<open>procs_at_wait_end\<close>: the process table at the moment the wait ends (by the
    child's exit or by the alarm);
  \<^item> \<open>gone_before_kill\<close>: processes that exit by themselves after the children were
    enumerated and before they are signalled.
\<close>

record run_env =
  popen_raises :: bool
  child_pid :: pid
  child_exit :: "(int \<times> string \<times> string) option"
  alarm_first :: "nat \<Rightarrow> bool"
  procs_at_wait_end :: ptable
  gone_before_kill :: "pid list"

text \<open>
  \<open>signal.alarm(t)\<close> takes a C int: a value outside its range raises
  \<open>OverflowError\<close>. Otherwise the value is read as an unsigned number of seconds, the
  alarm is scheduled that far ahead, and \<open>0\<close> schedules none (it cancels a pending
  one). The result is the number of seconds scheduled.
\<close>

definition c_int_ok :: "int \<Rightarrow> bool" where
  "c_int_ok t = (- (2 ^ 31) \<le> t \<and> t < 2 ^ 31)"

definition alarm :: "int \<Rightarrow> error + nat" where
  "alarm t = (if c_int_ok t then Inr (nat (t mod 2 ^ 32)) else Inl OverflowError)"

subsection \<open>\<open>get_process_children\<close>\<close>

text \<open>
  \<open>ps --no-headers -o pid --ppid pid\<close> prints the ids of the processes whose parent
  is \<open>pid\<close>; the function returns them as ints.
\<close>

definition get_process_children :: "pid \<Rightarrow> world \<Rightarrow> world \<times> pid list" where
  "get_process_children pid w =
     (log_call (Ps_call pid) w, [q. (q, pp) \<leftarrow> procs w, pp = pid])"

subsection \<open>\<open>run\<close>\<close>

text \<open>
  The loop of the \<open>except Alarm\<close> branch: each pid is signalled inside its own
  \<open>try\<close>, and \<open>except OSError: pass\<close> drops that one exception only.
\<close>

fun kill_each :: "pid list \<Rightarrow> world \<Rightarrow> world \<times> (error + unit)" where
  "kill_each [] w = (w, Inr ())"
| "kill_each (pid # pids) w =
     (let w1 = log_call (Kill_call pid) w in
      case os_kill pid (procs w1) of
        Inl e \<Rightarrow> if e = OSError then kill_each pids w1 else (w1, Inl e)
      | Inr tbl \<Rightarrow> kill_each pids (w1\<lparr>procs := tbl\<rparr>))"

text \<open>
  \<open>run(args, cwd, shell, kill_tree, timeout, env)\<close>. The arguments \<open>cwd\<close> and
  \<open>env\<close> are only passed on to \<open>Popen\<close> and are left out. \<open>Popen\<close> and
  \<open>alarm(timeout)\<close> are called outside the \<open>try\<close>, so what they raise leaves
  \<open>run\<close>. The second component of the result is \<open>None\<close> when the call never returns:
  the child never exits and no alarm interrupts the wait. The first component is the
  world as the call leaves it.
\<close>

definition run ::
  "run_env \<Rightarrow> string \<Rightarrow> bool \<Rightarrow> bool \<Rightarrow> int \<Rightarrow> world
     \<Rightarrow> world \<times> (error + int \<times> string \<times> string) option" where
  "run env args shell kill_tree timeout w0 =
     (let w1 = log_call (Popen_call args shell) w0
      in if popen_raises env then (w1, Some (Inl OSError))
         else
           (let w2 = (if timeout \<noteq> - 1
                      then log_call (Alarm_call timeout) (log_call Signal_call w1)
                      else w1)
            in case (if timeout \<noteq> - 1 then alarm timeout else Inr 0) of
                 Inl e \<Rightarrow> (w2, Some (Inl e))
               | Inr secs \<Rightarrow>
                   (let w3 = log_call Communicate_call w2
                    in if secs \<noteq> 0 \<and> alarm_first env secs
                       then
                         (let w4 = w3\<lparr>procs := procs_at_wait_end env\<rparr>;
                              (w5, children) =
                                (if kill_tree then get_process_children (child_pid env) w4
                                 else (w4, []));
                              pids = [child_pid env] @ children;
                              w6 = w5\<lparr>procs :=
                                     filter (\<lambda>(q, pp). q \<notin> set (gone_before_kill env))
                                       (procs w5)\<rparr>
                          in case kill_each pids w6 of
                               (w7, Inl e) \<Rightarrow> (w7, Some (Inl e))
                             | (w7, Inr u) \<Rightarrow> (w7, Some (Inr (- 9, [], []))))
                       else
                         (case child_exit env of
                            None \<Rightarrow> (w3, None)
                          | Some (returncode, stdout, stderr) \<Rightarrow>
                              (let w4 = w3\<lparr>procs := procs_at_wait_end env\<rparr>;
                                   w5 = (if timeout \<noteq> - 1 then log_call (Alarm_call 0) w4
                                         else w4)
                               in (w5, Some (Inr (returncode, stdout, stderr))))))))"

text \<open>
  A deadline is armed when \<open>run\<close> has asked for an alarm and the request has scheduled
  one. It fires when, besides, the child was started and the alarm comes while \<open>run\<close>
  is still waiting.
\<close>

definition deadline_armed :: "int \<Rightarrow> bool" where
  "deadline_armed timeout =
     (timeout \<noteq> - 1 \<and> (case alarm timeout of Inl e \<Rightarrow> False | Inr secs \<Rightarrow> secs \<noteq> 0))"

definition deadline_fires :: "run_env \<Rightarrow> int \<Rightarrow> bool" where
  "deadline_fires env timeout =
     (\<not> popen_raises env \<and> timeout \<noteq> - 1 \<and>
      (case alarm timeout of Inl e \<Rightarrow> False | Inr secs \<Rightarrow> secs \<noteq> 0 \<and> alarm_first env secs))"

subsection \<open>\<open>main\<close>\<close>

text \<open>
  The namespace \<open>ns\<close> of parsed arguments: the app's name, the \<open>--bash\<close> remainder
  (\<open>None\<close> when the flag is absent) and the \<open>--watch\<close> seconds, whose default is
  \<open>-1\<close>.
\<close>

record namespace =
  app_name :: string
  bash :: "string list option"
  watch :: int

definition default_watch :: int where
  "default_watch = - 1"

text \<open>\<open>if ns.bash\<close> holds for a list that is neither \<open>None\<close> nor empty.\<close>

definition bash_args :: "namespace \<Rightarrow> string list" where
  "bash_args ns = (case bash ns of None \<Rightarrow> [] | Some xs \<Rightarrow> xs)"

text \<open>\<open>' '.join(xs)\<close>\<close>

fun join_sp :: "string list \<Rightarrow> string" where
  "join_sp [] = []"
| "join_sp [x] = x"
| "join_sp (x # y # ys) = x @ '' '' @ join_sp (y # ys)"

text \<open>
  Modelled from the spec: \<open>runner.log_and_raise\<close> is not among the sources. The
  comment at its call site says that it raises an error and logs the output, and the
  spec says the reason is propagated as the distinguished failure reason: it logs the
  message and raises an exception that carries it.
\<close>

definition log_and_raise :: "string \<Rightarrow> world \<Rightarrow> world \<times> (error + unit) option" where
  "log_and_raise msg w = (log_msg ''error'' msg w, Some (Inl (JobError msg)))"

definition no_options_msg :: string where
  "no_options_msg =
     ''You need to specify bash options or configure default bash options''"

text \<open>
  The first lines of \<open>main\<close>, up to the test of \<open>cmd\<close>: the command configured for
  the app, with the \<open>--bash\<close> arguments appended when there are any. The helper
  \<open>dag_tools.get_bash_opts\<close> is not among the sources and is a parameter.
\<close>

definition build_cmd :: "(string \<Rightarrow> string) \<Rightarrow> namespace \<Rightarrow> world \<Rightarrow> string \<times> world" where
  "build_cmd get_bash_opts ns w0 =
     (let w1 = log_msg ''info'' ''Running bash job'' w0;
          cmd = get_bash_opts (app_name ns)
      in if bash_args ns \<noteq> []
         then (cmd @ join_sp (bash_args ns),
               log_msg ''debug'' ''Appending user-supplied bash options to defaults'' w1)
         else (cmd, w1))"

text \<open>
  \<open>main(ns, job_id)\<close>. The parameter \<open>render\<close> stands for
  \<open>cmd.format(**_cmdargs)\<close> with the job id parsed by \<open>dag_tools.parse_job_id\<close>,
  which is not among the sources; it is \<open>None\<close> when parsing or formatting raises.
\<close>

definition main ::
  "(string \<Rightarrow> string) \<Rightarrow> (string \<Rightarrow> namespace \<Rightarrow> string \<Rightarrow> string option) \<Rightarrow> run_env
     \<Rightarrow> namespace \<Rightarrow> string \<Rightarrow> world \<Rightarrow> world \<times> (error + unit) option" where
  "main get_bash_opts render env ns job_id w0 =
     (case build_cmd get_bash_opts ns w0 of (cmd, w2) \<Rightarrow>
        if cmd = [] then (w2, Some (Inl (UserWarning no_options_msg)))
        else
          (case render cmd ns job_id of
             None \<Rightarrow> (w2, Some (Inl RenderError))
           | Some cmd' \<Rightarrow>
               (case run env cmd' True True (watch ns) w2 of
                  (w3, None) \<Rightarrow> (w3, None)
                | (w3, Some (Inl e)) \<Rightarrow> (w3, Some (Inl e))
                | (w3, Some (Inr (returncode, stdout, stderr))) \<Rightarrow>
                    if returncode = - 9 then log_and_raise ''Bash job timed out'' w3
                    else if returncode \<noteq> 0 then log_and_raise ''Bash job failed'' w3
                    else (log_msg ''info'' ''Bash job succeeded'' w3, Some (Inr ())))))"

section \<open>The testing tools: \<open>stolos/testing_tools.py\<close>\<close>

subsection \<open>The coordination service as the client sees it\<close>

text \<open>
  A path is the list of its components, so \<open>join(p, 'x')\<close> is \<open>p @ [''x'']\<close>; an
  app's name is a path of its own (\<open>test_stolos/f/app1\<close>). The store keeps every node
  with its payload, and the counter from which sequential nodes are named. The
  children of a node are the nodes one component below it.
\<close>

type_synonym path = "string list"

record zkstate =
  nodes :: "(path \<times> string) list"
  seq :: nat

text \<open>\<open>zk.exists(p)\<close>\<close>

definition zk_exists :: "zkstate \<Rightarrow> path \<Rightarrow> bool" where
  "zk_exists zk p = (map_of (nodes zk) p \<noteq> None)"

text \<open>\<open>zk.get(p)[0]\<close>: the payload, or \<open>NoNodeError\<close>.\<close>

definition zk_get :: "zkstate \<Rightarrow> path \<Rightarrow> error + string" where
  "zk_get zk p = (case map_of (nodes zk) p of None \<Rightarrow> Inl NoNodeError | Some d \<Rightarrow> Inr d)"

definition child_names :: "zkstate \<Rightarrow> path \<Rightarrow> string list" where
  "child_names zk p = [last q. (q, d) \<leftarrow> nodes zk, q \<noteq> [] \<and> butlast q = p]"

text \<open>\<open>zk.get_children(p)\<close>: the names of the children, or \<open>NoNodeError\<close>.\<close>

definition zk_get_children :: "zkstate \<Rightarrow> path \<Rightarrow> error + string list" where
  "zk_get_children zk p = (if zk_exists zk p then Inr (child_names zk p) else Inl NoNodeError)"

text \<open>
  A store as the service can hold one: no path is there twice, and every node below
  the first level has its parent.
\<close>

definition wf_store :: "zkstate \<Rightarrow> bool" where
  "wf_store zk =
     (distinct (map fst (nodes zk)) \<and>
      list_all (\<lambda>(q, d). length q \<le> 1 \<or> map_of (nodes zk) (butlast q) \<noteq> None) (nodes zk))"

subsection \<open>\<open>get_zk_status\<close>\<close>

record status =
  num_add_locks :: nat
  num_execute_locks :: nat
  in_queue :: bool
  app_qsize :: nat
  state :: string

definition and_then :: "error + 'a \<Rightarrow> ('a \<Rightarrow> error + 'b) \<Rightarrow> error + 'b" where
  "and_then m f = (case m of Inl e \<Rightarrow> Inl e | Inr x \<Rightarrow> f x)"

text \<open>\<open>len(zk.exists(p) and zk.get_children(p) or [])\<close>\<close>

definition len_children_or_empty :: "zkstate \<Rightarrow> path \<Rightarrow> error + nat" where
  "len_children_or_empty zk p =
     (if zk_exists zk p
      then and_then (zk_get_children zk p) (\<lambda>xs. Inr (length xs))
      else Inr 0)"

text \<open>
  \<open>any(zk.get(join(app_name, 'entries', x))[0] == job_id for x in xs)\<close>: the
  generator is consumed up to the first entry that matches.
\<close>

fun any_entry_is :: "zkstate \<Rightarrow> path \<Rightarrow> string \<Rightarrow> string list \<Rightarrow> error + bool" where
  "any_entry_is zk app job_id [] = Inr False"
| "any_entry_is zk app job_id (x # xs) =
     and_then (zk_get zk (app @ [''entries'', x]))
       (\<lambda>d. if d = job_id then Inr True else any_entry_is zk app job_id xs)"

text \<open>
  \<open>get_zk_status(zk, app_name, job_id)\<close>, with \<open>app\<close> for \<open>app_name\<close>. The helper \<open>zkt._get_zookeeper_path\<close> is
  not among the sources and is the parameter \<open>zpath\<close>. The values of the dict are
  computed in the order in which they are written.
\<close>

definition get_zk_status ::
  "(path \<Rightarrow> string \<Rightarrow> path) \<Rightarrow> zkstate \<Rightarrow> path \<Rightarrow> string \<Rightarrow> error + status" where
  "get_zk_status zpath zk app job_id =
     (let path = zpath app job_id;
          elockpath = path @ [''execute_lock''];
          alockpath = path @ [''add_lock''];
          entriespath = app @ [''entries'']
      in and_then (len_children_or_empty zk alockpath) (\<lambda>n_add.
         and_then (len_children_or_empty zk elockpath) (\<lambda>n_exec.
         and_then (if zk_exists zk entriespath
                   then and_then (zk_get_children zk entriespath)
                          (any_entry_is zk app job_id)
                   else Inr False) (\<lambda>queued.
         and_then (if zk_exists zk entriespath
                   then and_then (zk_get_children zk entriespath) (\<lambda>xs. Inr (length xs))
                   else Inr 0) (\<lambda>qsize.
         and_then (zk_get zk path) (\<lambda>st.
           Inr \<lparr>num_add_locks = n_add, num_execute_locks = n_exec, in_queue = queued,
                app_qsize = qsize, state = st\<rparr>))))))"

subsection \<open>The validators\<close>







section \<open>The coordination operations behind the testing tools\<close>

text \<open>
  \<open>testing_tools.enqueue\<close> calls \<open>api.maybe_add_subtask\<close>, and the validators
  describe the state that \<open>mark_failed\<close> leaves; neither function, nor the module
  \<open>zookeeper_tools\<close> that lays out the paths, is among the sources. They are
  modelled here from the specification, on the store that \<open>get_zk_status\<close> reads.
\<close>

subsection \<open>Paths and primitives\<close>

text \<open>
  Modelled from the spec: \<open>zkt._get_zookeeper_path\<close> is missing. The path layout of the
  specification keeps the status of job \<open>J\<close> of app \<open>A\<close> at \<open>A/J\<close>. The functions
  of the sources take the layout as a parameter; this one instantiates it.
\<close>

definition spec_layout :: "path \<Rightarrow> string \<Rightarrow> path" where
  "spec_layout app job_id = app @ [job_id]"







text \<open>
  Modelled from the spec: the atomic primitives of the coordination service. Creating a
  node that exists changes nothing; a sequential node is created under its directory,
  which is created with it if needed, and advances the counter; setting a payload creates
  the node if needed; deleting removes the node.
\<close>

definition zk_create :: "path \<Rightarrow> string \<Rightarrow> zkstate \<Rightarrow> zkstate" where
  "zk_create p d zk = (if zk_exists zk p then zk else zk\<lparr>nodes := nodes zk @ [(p, d)]\<rparr>)"


definition zk_set :: "path \<Rightarrow> string \<Rightarrow> zkstate \<Rightarrow> zkstate" where
  "zk_set p d zk =
     (if zk_exists zk p
      then zk\<lparr>nodes := map (\<lambda>(q, e). if q = p then (q, d) else (q, e)) (nodes zk)\<rparr>
      else zk\<lparr>nodes := nodes zk @ [(p, d)]\<rparr>)"

definition zk_delete :: "path \<Rightarrow> zkstate \<Rightarrow> zkstate" where
  "zk_delete p zk = zk\<lparr>nodes := filter (\<lambda>(q, e). q \<noteq> p) (nodes zk)\<rparr>"

subsection \<open>\<open>maybe_add_subtask\<close>\<close>

text \<open>The payloads of the entries in an app's queue directory.\<close>

definition entry_payloads :: "zkstate \<Rightarrow> path \<Rightarrow> string list" where
  "entry_payloads zk entriespath =
     [d. (q, d) \<leftarrow> nodes zk, q \<noteq> [] \<and> butlast q = entriespath]"


subsection \<open>\<open>mark_failed\<close>\<close>


subsection \<open>\<open>enqueue\<close>\<close>


section \<open>Concrete inputs\<close>

text \<open>
  A command whose child (10) has a child (11) that has a child (12) and never exits; a
  command that exits with code 3 before any alarm; a command whose child's child exits
  by itself just before it is signalled; a command whose child is killed by signal 9
  from elsewhere and has written nothing.
\<close>

definition demo_env :: run_env where
  "demo_env = \<lparr>popen_raises = False, child_pid = 10, child_exit = None, alarm_first = (\<lambda>t. True),
     procs_at_wait_end = [(10, 1), (11, 10), (12, 11)], gone_before_kill = []\<rparr>"

definition quick_env :: run_env where
  "quick_env = \<lparr>popen_raises = False, child_pid = 10, child_exit = Some (3, ''out'', ''err''), alarm_first = (\<lambda>t. False),
     procs_at_wait_end = [], gone_before_kill = []\<rparr>"

definition race_env :: run_env where
  "race_env = \<lparr>popen_raises = False, child_pid = 10, child_exit = None, alarm_first = (\<lambda>t. True),
     procs_at_wait_end = [(10, 1), (11, 10)], gone_before_kill = [11]\<rparr>"


definition world0 :: world where
  "world0 = \<lparr>procs = [], calls = [], logs = []\<rparr>"

text \<open>
  Namespaces with and without \<open>--bash\<close> arguments, an app with no command
  configured, a command template without fields, a command that exits with code 0, and
  a namespace with a five second watchdog.
\<close>

definition demo_ns :: namespace where
  "demo_ns = \<lparr>app_name = ''app1'', bash = Some [''echo'', ''hi''], watch = default_watch\<rparr>"

definition bare_ns :: namespace where
  "bare_ns = \<lparr>app_name = ''app1'', bash = None, watch = default_watch\<rparr>"

definition no_opts :: "string \<Rightarrow> string" where
  "no_opts app = []"

definition plain_render :: "string \<Rightarrow> namespace \<Rightarrow> string \<Rightarrow> string option" where
  "plain_render cmd ns job_id = Some cmd"

definition ok_env :: run_env where
  "ok_env = \<lparr>popen_raises = False, child_pid = 10, child_exit = Some (0, ''hi'', ''''), alarm_first = (\<lambda>t. False),
     procs_at_wait_end = [], gone_before_kill = []\<rparr>"

definition watched_ns :: namespace where
  "watched_ns = \<lparr>app_name = ''app1'', bash = Some [''sleep'', ''60''], watch = 5\<rparr>"

text \<open>
  Stores: one where \<open>job1\<close> of \<open>app1\<close> is queued and claimed; the empty store; one
  where another job is queued; one that holds the status node of \<open>job1\<close> only.
\<close>

definition claimed_store :: zkstate where
  "claimed_store = \<lparr>nodes =
      [([''app1''], ''''),
       ([''app1'', ''entries''], ''''),
       ([''app1'', ''entries'', ''0000000000''], ''job1''),
       ([''app1'', ''job1''], ''pending''),
       ([''app1'', ''job1'', ''execute_lock''], ''''),
       ([''app1'', ''job1'', ''execute_lock'', ''0000000001''], '''')],
     seq = 2\<rparr>"

definition empty_store :: zkstate where
  "empty_store = \<lparr>nodes = [], seq = 0\<rparr>"


definition pending_only :: zkstate where
  "pending_only = \<lparr>nodes = [([''app1'', ''job1''], ''pending'')], seq = 0\<rparr>"



section \<open>Properties of the bash plugin\<close>

subsection \<open>The kill loop\<close>

lemma kill_each_no_raise: "snd (kill_each pids w) = Inr ()"
  by (induction pids arbitrary: w) (auto simp: os_kill_def Let_def split: sum.splits)

lemma kill_each_calls: "calls (fst (kill_each pids w)) = calls w @ map Kill_call pids"
  by (induction pids arbitrary: w) (auto simp: os_kill_def Let_def log_call_def split: sum.splits)

lemma kill_each_logs: "logs (fst (kill_each pids w)) = logs w"
  by (induction pids arbitrary: w) (auto simp: os_kill_def Let_def log_call_def split: sum.splits)



subsection \<open>When a deadline is armed\<close>

lemma alarm_seconds_zero:
  assumes "c_int_ok t"
  shows "(t mod 4294967296 \<le> 0) = (t = 0)"
proof (cases "0 \<le> t")
  case True
  have "t < 4294967296" using assms by (simp add: c_int_ok_def)
  then have "t mod 4294967296 = t" by (rule mod_pos_pos_trivial [OF True])
  then show ?thesis using True by simp
next
  case False
  have r: "0 \<le> t + 4294967296" "t + 4294967296 < 4294967296"
    using assms False by (simp_all add: c_int_ok_def)
  have "(t + 4294967296) mod 4294967296 = t + 4294967296"
    by (rule mod_pos_pos_trivial [OF r])
  then have "t mod 4294967296 = t + 4294967296" by simp
  then show ?thesis using r False assms by (simp add: c_int_ok_def)
qed

lemma deadline_armed_iff:
  "deadline_armed timeout = (timeout \<noteq> - 1 \<and> timeout \<noteq> 0 \<and> c_int_ok timeout)"
proof (cases "c_int_ok timeout")
  case True
  then show ?thesis
    using alarm_seconds_zero [OF True] by (simp add: deadline_armed_def alarm_def)
next
  case False
  then show ?thesis by (simp add: deadline_armed_def alarm_def)
qed

lemma deadline_fires_iff:
  "deadline_fires env timeout =
     (\<not> popen_raises env \<and> deadline_armed timeout \<and> alarm_first env (nat (timeout mod 2 ^ 32)))"
proof (cases "c_int_ok timeout")
  case True
  then show ?thesis by (auto simp: deadline_fires_def deadline_armed_def alarm_def)
next
  case False
  then show ?thesis by (simp add: deadline_fires_def deadline_armed_def alarm_def)
qed

subsection \<open>The ways \<open>run\<close> ends\<close>

lemma run_popen_raises:
  assumes "popen_raises env"
  shows "run env args shell kill_tree timeout w =
     (w\<lparr>calls := calls w @ [Popen_call args shell]\<rparr>, Some (Inl OSError))"
  using assms by (simp add: run_def Let_def log_call_def)

lemma run_alarm_overflow:
  assumes "\<not> popen_raises env" and "\<not> c_int_ok timeout"
  shows "run env args shell kill_tree timeout w =
     (w\<lparr>calls := calls w @ [Popen_call args shell, Signal_call, Alarm_call timeout]\<rparr>,
      Some (Inl OverflowError))"
proof -
  have "timeout \<noteq> - 1" using assms(2) by (auto simp: c_int_ok_def)
  then show ?thesis
    using assms by (cases w) (simp add: run_def Let_def log_call_def alarm_def)
qed

lemma run_alarm_branch:
  assumes "deadline_fires env timeout"
  shows "run env args shell kill_tree timeout w =
     (fst (kill_each (child_pid env # (if kill_tree then [q. (q, pp) \<leftarrow> procs_at_wait_end env, pp = child_pid env] else []))
        \<lparr>procs = filter (\<lambda>(q, pp). q \<notin> set (gone_before_kill env)) (procs_at_wait_end env),
         calls = calls w @ [Popen_call args shell, Signal_call, Alarm_call timeout, Communicate_call]
                   @ (if kill_tree then [Ps_call (child_pid env)] else []),
         logs = logs w\<rparr>),
      Some (Inr (- 9, [], [])))"
proof -
  have k: "\<And>pids w'. kill_each pids w' = (fst (kill_each pids w'), Inr ())"
    using kill_each_no_raise by (metis prod.collapse)
  from assms obtain secs where a: "\<not> popen_raises env" "timeout \<noteq> - 1"
      "alarm timeout = Inr secs" "secs \<noteq> 0" "alarm_first env secs"
    by (auto simp: deadline_fires_def split: sum.splits)
  show ?thesis
    using a
    by (cases w; cases kill_tree)
       (simp_all add: run_def Let_def get_process_children_def log_call_def
          del: kill_each.simps, (subst k, simp del: kill_each.simps)+)
qed

lemma run_wait_branch:
  assumes "\<not> popen_raises env" and "timeout = - 1 \<or> c_int_ok timeout"
    and "\<not> deadline_fires env timeout"
  shows "run env args shell kill_tree timeout w =
     (case child_exit env of
        None \<Rightarrow>
          (w\<lparr>calls := calls w @ [Popen_call args shell]
                  @ (if timeout \<noteq> - 1 then [Signal_call, Alarm_call timeout] else [])
                  @ [Communicate_call]\<rparr>, None)
      | Some r \<Rightarrow>
          (w\<lparr>procs := procs_at_wait_end env,
             calls := calls w @ [Popen_call args shell]
                  @ (if timeout \<noteq> - 1 then [Signal_call, Alarm_call timeout] else [])
                  @ [Communicate_call]
                  @ (if timeout \<noteq> - 1 then [Alarm_call 0] else [])\<rparr>, Some (Inr r)))"
proof (cases "timeout = - 1")
  case True
  then show ?thesis
    using assms(1) by (cases w) (auto simp: run_def Let_def log_call_def split: option.splits)
next
  case False
  then have c: "c_int_ok timeout" using assms(2) by blast
  have "\<not> (nat (timeout mod 2 ^ 32) \<noteq> 0 \<and> alarm_first env (nat (timeout mod 2 ^ 32)))"
    using assms(1,3) False c by (simp add: deadline_fires_def alarm_def)
  then show ?thesis
    using assms(1) False c
    by (cases w) (auto simp: run_def Let_def log_call_def alarm_def split: option.splits)
qed

lemma run_raises_only:
  assumes "snd (run env args shell kill_tree timeout w) = Some (Inl e)"
  shows "e = OSError \<or> e = OverflowError"
proof (cases "popen_raises env")
  case True
  then show ?thesis using assms by (simp add: run_popen_raises)
next
  case False
  show ?thesis
  proof (cases "c_int_ok timeout")
    case c: True
    show ?thesis
    proof (cases "deadline_fires env timeout")
      case True
      then show ?thesis using assms by (simp add: run_alarm_branch del: kill_each.simps)
    next
      case f: False
      show ?thesis
        using assms run_wait_branch [OF False _ f, of args shell kill_tree w] c
        by (simp split: option.splits)
    qed
  next
    case c: False
    then show ?thesis using assms False by (simp add: run_alarm_overflow)
  qed
qed

subsection \<open>Claims about \<open>run\<close>\<close>







text \<open>
  C5. A process of the kill set that has exited before it is signalled makes
  \<open>os.kill\<close> raise \<open>OSError\<close>; \<open>run\<close> signals it all the same, drops the
  exception and returns \<open>-9\<close> with empty output.
\<close>

theorem run_swallows_no_such_process:
  assumes "deadline_fires env timeout"
    and "pid = child_pid env \<or> kill_tree \<and> (pid, child_pid env) \<in> set (procs_at_wait_end env)"
    and "pid \<in> set (gone_before_kill env)"
  shows "os_kill pid (filter (\<lambda>(q, pp). q \<notin> set (gone_before_kill env)) (procs_at_wait_end env))
           = Inl OSError
       \<and> Kill_call pid \<in> set (calls (fst (run env args shell kill_tree timeout w)))
       \<and> snd (run env args shell kill_tree timeout w) = Some (Inr (- 9, [], []))"
proof -
  have "os_kill pid (filter (\<lambda>(q, pp). q \<notin> set (gone_before_kill env)) (procs_at_wait_end env))
           = Inl OSError"
    using assms(3) by (auto simp: os_kill_def)
  moreover have "Kill_call pid \<in> set (calls (fst (run env args shell kill_tree timeout w)))"
    using assms(2)
    by (auto simp add: run_alarm_branch [OF assms(1)] kill_each_calls simp del: kill_each.simps)
  moreover have "snd (run env args shell kill_tree timeout w) = Some (Inr (- 9, [], []))"
    by (simp add: run_alarm_branch [OF assms(1)] del: kill_each.simps)
  ultimately show ?thesis by blast
qed

text \<open>The witness: process 11 exits between the enumeration and its signal.\<close>

theorem run_swallows_no_such_process_witness:
  "deadline_fires race_env 5
   \<and> (11, child_pid race_env) \<in> set (procs_at_wait_end race_env)
   \<and> 11 \<in> set (gone_before_kill race_env)
   \<and> os_kill 11 (filter (\<lambda>(q, pp). q \<notin> set (gone_before_kill race_env))
                   (procs_at_wait_end race_env)) = Inl OSError
   \<and> Kill_call 11 \<in> set (calls (fst (run race_env ''job.sh'' True True 5 world0)))
   \<and> snd (run race_env ''job.sh'' True True 5 world0) = Some (Inr (- 9, [], []))"
proof -
  have f: "deadline_fires race_env 5"
    by (simp add: deadline_fires_def alarm_def c_int_ok_def race_env_def)
  have p: "(11, child_pid race_env) \<in> set (procs_at_wait_end race_env)"
    "11 \<in> set (gone_before_kill race_env)"
    by (simp_all add: race_env_def)
  show ?thesis
    using run_swallows_no_such_process [of race_env 5 11 True "''job.sh''" True world0] f p
    by simp
qed

text \<open>
  C4, as amended. \<open>run\<close> arms a deadline exactly when \<open>timeout\<close> is neither \<open>-1\<close>
  nor \<open>0\<close> and fits a C int, and a deadline fires only if it is armed. With \<open>-1\<close>,
  the default of \<open>--watch\<close>, no alarm is requested; with \<open>0\<close> the request
  \<open>alarm(0)\<close> schedules nothing; in both cases \<open>run\<close> returns the child's own return
  code and output when the child exits, and never returns if it never does. With any
  other value that fits a C int the alarm is requested before the wait and cancelled
  by \<open>alarm(0)\<close> if the child exits in time. With a value that does not fit,
  \<open>alarm\<close> raises \<open>OverflowError\<close> before the wait.
\<close>

theorem run_arms_deadline:
  "deadline_armed timeout
     = (timeout \<noteq> - 1 \<and> timeout \<noteq> 0 \<and> - (2 ^ 31) \<le> timeout \<and> timeout < 2 ^ 31)
   \<and> (deadline_fires env timeout \<longrightarrow> deadline_armed timeout)
   \<and> (\<not> popen_raises env \<longrightarrow>
       calls (fst (run env args shell kill_tree timeout w)) =
         calls w @ [Popen_call args shell]
           @ (if timeout = - 1 then [] else [Signal_call, Alarm_call timeout])
           @ (if \<not> c_int_ok timeout then []
              else [Communicate_call]
                @ (if deadline_fires env timeout
                   then (if kill_tree then [Ps_call (child_pid env)] else [])
                        @ map Kill_call (child_pid env #
                            (if kill_tree
                             then [q. (q, pp) \<leftarrow> procs_at_wait_end env, pp = child_pid env]
                             else []))
                   else if timeout \<noteq> - 1 \<and> child_exit env \<noteq> None then [Alarm_call 0]
                   else []))
       \<and> snd (run env args shell kill_tree timeout w) =
           (if \<not> c_int_ok timeout then Some (Inl OverflowError)
            else if deadline_fires env timeout then Some (Inr (- 9, [], []))
            else map_option Inr (child_exit env)))"
proof -
  have a: "deadline_armed timeout
     = (timeout \<noteq> - 1 \<and> timeout \<noteq> 0 \<and> - (2 ^ 31) \<le> timeout \<and> timeout < 2 ^ 31)"
    by (simp add: deadline_armed_iff c_int_ok_def)
  have b: "deadline_fires env timeout \<longrightarrow> deadline_armed timeout"
    by (simp add: deadline_fires_iff)
  have c: "calls (fst (run env args shell kill_tree timeout w)) =
         calls w @ [Popen_call args shell]
           @ (if timeout = - 1 then [] else [Signal_call, Alarm_call timeout])
           @ (if \<not> c_int_ok timeout then []
              else [Communicate_call]
                @ (if deadline_fires env timeout
                   then (if kill_tree then [Ps_call (child_pid env)] else [])
                        @ map Kill_call (child_pid env #
                            (if kill_tree
                             then [q. (q, pp) \<leftarrow> procs_at_wait_end env, pp = child_pid env]
                             else []))
                   else if timeout \<noteq> - 1 \<and> child_exit env \<noteq> None then [Alarm_call 0]
                   else []))
       \<and> snd (run env args shell kill_tree timeout w) =
           (if \<not> c_int_ok timeout then Some (Inl OverflowError)
            else if deadline_fires env timeout then Some (Inr (- 9, [], []))
            else map_option Inr (child_exit env))"
    if p: "\<not> popen_raises env"
  proof (cases "c_int_ok timeout")
    case False
    then have "timeout \<noteq> - 1" by (auto simp: c_int_ok_def)
    then show ?thesis using False by (simp add: run_alarm_overflow [OF p False])
  next
    case True
    show ?thesis
    proof (cases "deadline_fires env timeout")
      case f: True
      then have "timeout \<noteq> - 1" by (simp add: deadline_fires_def)
      then show ?thesis
        using True f by (simp add: run_alarm_branch [OF f] kill_each_calls del: kill_each.simps)
    next
      case f: False
      have t: "timeout = - 1 \<or> c_int_ok timeout" using True by simp
      show ?thesis
        using True f by (auto simp: run_wait_branch [OF p t f] split: option.splits)
    qed
  qed
  show ?thesis using a b c by blast
qed

text \<open>
  The witness: the default \<open>-1\<close>, a seven second deadline that is not reached, the
  value \<open>0\<close> on a command that never exits, and a value beyond the C int.
\<close>

theorem run_arms_deadline_witness:
  "\<not> deadline_armed default_watch
   \<and> calls (fst (run quick_env ''true'' True True default_watch world0)) =
       [Popen_call ''true'' True, Communicate_call]
   \<and> snd (run quick_env ''true'' True True default_watch world0)
       = Some (Inr (3, ''out'', ''err''))
   \<and> deadline_armed 7
   \<and> calls (fst (run quick_env ''true'' True True 7 world0)) =
       [Popen_call ''true'' True, Signal_call, Alarm_call 7, Communicate_call, Alarm_call 0]
   \<and> snd (run quick_env ''true'' True True 7 world0) = Some (Inr (3, ''out'', ''err''))
   \<and> \<not> deadline_armed 0
   \<and> snd (run demo_env ''sleep 60'' True True 0 world0) = None
   \<and> \<not> deadline_armed 2147483648
   \<and> calls (fst (run quick_env ''true'' True True 2147483648 world0)) =
       [Popen_call ''true'' True, Signal_call, Alarm_call 2147483648]
   \<and> snd (run quick_env ''true'' True True 2147483648 world0) = Some (Inl OverflowError)"
proof -
  have q: "\<not> popen_raises quick_env" "\<not> popen_raises demo_env"
    "child_exit quick_env = Some (3, ''out'', ''err'')" "child_exit demo_env = None"
    by (simp_all add: quick_env_def demo_env_def)
  have f: "\<not> deadline_fires quick_env default_watch" "\<not> deadline_fires quick_env 7"
    "\<not> deadline_fires demo_env 0" "\<not> deadline_fires quick_env 2147483648"
    by (simp_all add: deadline_fires_def alarm_def c_int_ok_def default_watch_def quick_env_def)
  have c: "c_int_ok default_watch" "c_int_ok 7" "c_int_ok 0" "\<not> c_int_ok 2147483648"
    by (simp_all add: c_int_ok_def default_watch_def)
  have d: "default_watch = - 1" by (simp add: default_watch_def)
  show ?thesis
    using run_arms_deadline [of default_watch quick_env "''true''" True True world0]
      run_arms_deadline [of 7 quick_env "''true''" True True world0]
      run_arms_deadline [of 0 demo_env "''sleep 60''" True True world0]
      run_arms_deadline [of 2147483648 quick_env "''true''" True True world0]
      q f c
    by (simp add: d world0_def)
qed

text \<open>
  C4 as stated fails in both directions. The test is \<open>timeout != -1\<close>, so the negative
  value \<open>-2\<close> arms a deadline, which kills the command that never exits. The
  non-negative value \<open>0\<close> arms none, since \<open>alarm(0)\<close> schedules nothing: the same
  command is waited for without end.
\<close>

theorem run_arms_by_sign_counterexample:
  "\<not> (0::int) \<le> - 2 \<and> deadline_armed (- 2)
   \<and> snd (run demo_env ''sleep 60'' True True (- 2) world0) = Some (Inr (- 9, [], []))
   \<and> (0::int) \<le> 0 \<and> \<not> deadline_armed 0
   \<and> calls (fst (run demo_env ''sleep 60'' True True 0 world0)) =
       [Popen_call ''sleep 60'' True, Signal_call, Alarm_call 0, Communicate_call]
   \<and> snd (run demo_env ''sleep 60'' True True 0 world0) = None"
proof -
  have a: "deadline_armed (- 2)" "\<not> deadline_armed 0"
    by (simp_all add: deadline_armed_def alarm_def c_int_ok_def)
  have f: "deadline_fires demo_env (- 2)"
    by (simp add: deadline_fires_def alarm_def c_int_ok_def demo_env_def)
  have r: "snd (run demo_env ''sleep 60'' True True (- 2) world0) = Some (Inr (- 9, [], []))"
    by (simp add: run_alarm_branch [OF f] del: kill_each.simps)
  have z: "run demo_env ''sleep 60'' True True 0 world0 =
      (world0\<lparr>calls := [Popen_call ''sleep 60'' True, Signal_call, Alarm_call 0,
          Communicate_call]\<rparr>, None)"
    by (simp add: run_def Let_def alarm_def c_int_ok_def demo_env_def log_call_def world0_def)
  show ?thesis using a r by (simp add: z)
qed

subsection \<open>Claims about \<open>main\<close>\<close>

lemma main_raises_UserWarning_iff:
  "(\<exists>msg. snd (main get_bash_opts render env ns job_id w) = Some (Inl (UserWarning msg)))
     = (fst (build_cmd get_bash_opts ns w) = [])"
proof -
  obtain cmd w2 where b: "build_cmd get_bash_opts ns w = (cmd, w2)" by force
  show ?thesis
  proof (cases "cmd = []")
    case True
    then show ?thesis using b by (simp add: main_def)
  next
    case False
    show ?thesis
    proof (cases "render cmd ns job_id")
      case None
      then show ?thesis using b False by (simp add: main_def)
    next
      case (Some cmd')
      obtain w3 r where r: "run env cmd' True True (watch ns) w2 = (w3, r)" by force
      have "r \<noteq> Some (Inl (UserWarning msg))" for msg
        using run_raises_only [of env cmd' True True "watch ns" w2 "UserWarning msg"] r
        by auto
      then show ?thesis using b False Some r
        by (auto simp: main_def log_and_raise_def split: option.splits sum.splits)
    qed
  qed
qed

text \<open>
  C3. Once \<open>main\<close> has a command and \<open>run\<close> has returned, the outcome depends on the
  return code alone: \<open>0\<close> logs success and raises nothing, \<open>-9\<close> raises with the reason
  \<open>Bash job timed out\<close>, every other code raises with the reason \<open>Bash job failed\<close>.
\<close>

theorem main_classifies_by_returncode:
  assumes "fst (build_cmd get_bash_opts ns w) \<noteq> []"
    and "render (fst (build_cmd get_bash_opts ns w)) ns job_id = Some cmd'"
    and "snd (run env cmd' True True (watch ns) (snd (build_cmd get_bash_opts ns w)))
           = Some (Inr (returncode, stdout, stderr))"
  shows "snd (main get_bash_opts render env ns job_id w) =
           Some (if returncode = 0 then Inr ()
                 else if returncode = - 9 then Inl (JobError ''Bash job timed out'')
                 else Inl (JobError ''Bash job failed''))
       \<and> logs (fst (main get_bash_opts render env ns job_id w)) =
           logs (fst (run env cmd' True True (watch ns) (snd (build_cmd get_bash_opts ns w))))
           @ [if returncode = 0 then (''info'', ''Bash job succeeded'')
              else if returncode = - 9 then (''error'', ''Bash job timed out'')
              else (''error'', ''Bash job failed'')]"
proof -
  obtain cmd w2 where b: "build_cmd get_bash_opts ns w = (cmd, w2)" by force
  obtain w3 where r: "run env cmd' True True (watch ns) w2
                        = (w3, Some (Inr (returncode, stdout, stderr)))"
    using assms(3) b by (cases "run env cmd' True True (watch ns) w2") simp
  show ?thesis
    using assms(1,2) b r by (simp add: main_def log_and_raise_def log_msg_def)
qed

text \<open>The witness: return codes 0 and 3, and a watchdog that fires.\<close>

theorem main_classifies_by_returncode_witness:
  "snd (main no_opts plain_render ok_env demo_ns ''j1'' world0) = Some (Inr ())
   \<and> logs (fst (main no_opts plain_render ok_env demo_ns ''j1'' world0)) =
       [(''info'', ''Running bash job''),
        (''debug'', ''Appending user-supplied bash options to defaults''),
        (''info'', ''Bash job succeeded'')]
   \<and> snd (main no_opts plain_render quick_env demo_ns ''j1'' world0)
       = Some (Inl (JobError ''Bash job failed''))
   \<and> snd (main no_opts plain_render demo_env watched_ns ''j1'' world0)
       = Some (Inl (JobError ''Bash job timed out''))"
proof -
  have b: "build_cmd no_opts demo_ns world0 =
      (''echo hi'', world0\<lparr>logs := [(''info'', ''Running bash job''),
        (''debug'', ''Appending user-supplied bash options to defaults'')]\<rparr>)"
    by (simp add: build_cmd_def no_opts_def demo_ns_def bash_args_def world0_def log_msg_def)
  have b': "build_cmd no_opts watched_ns world0 =
      (''sleep 60'', world0\<lparr>logs := [(''info'', ''Running bash job''),
        (''debug'', ''Appending user-supplied bash options to defaults'')]\<rparr>)"
    by (simp add: build_cmd_def no_opts_def watched_ns_def bash_args_def world0_def log_msg_def)
  have wd: "watch demo_ns = - 1" by (simp add: demo_ns_def default_watch_def)
  have r1: "snd (run ok_env ''echo hi'' True True (watch demo_ns) (snd (build_cmd no_opts demo_ns world0)))
              = Some (Inr (0, ''hi'', ''''))"
    by (simp add: b wd run_def ok_env_def Let_def)
  have l1: "logs (fst (run ok_env ''echo hi'' True True (watch demo_ns) (snd (build_cmd no_opts demo_ns world0))))
              = [(''info'', ''Running bash job''),
                 (''debug'', ''Appending user-supplied bash options to defaults'')]"
    by (simp add: b wd run_def ok_env_def Let_def log_call_def)
  have r2: "snd (run quick_env ''echo hi'' True True (watch demo_ns) (snd (build_cmd no_opts demo_ns world0)))
              = Some (Inr (3, ''out'', ''err''))"
    by (simp add: b wd run_def quick_env_def Let_def)
  have r3: "snd (run demo_env ''sleep 60'' True True (watch watched_ns)
                  (snd (build_cmd no_opts watched_ns world0)))
              = Some (Inr (- 9, [], []))"
  proof -
    have "deadline_fires demo_env (watch watched_ns)"
      by (simp add: deadline_fires_def alarm_def c_int_ok_def demo_env_def watched_ns_def)
    then show ?thesis by (simp add: run_alarm_branch del: kill_each.simps)
  qed
  show ?thesis
    using main_classifies_by_returncode [of no_opts demo_ns world0 plain_render "''j1''"
            "''echo hi''" ok_env 0 "''hi''" "''''"]
          main_classifies_by_returncode [of no_opts demo_ns world0 plain_render "''j1''"
            "''echo hi''" quick_env 3 "''out''" "''err''"]
          main_classifies_by_returncode [of no_opts watched_ns world0 plain_render "''j1''"
            "''sleep 60''" demo_env "- 9" "[]" "[]"]
          b b' r1 l1 r2 r3
    by (simp add: plain_render_def)
qed

text \<open>
  C6. \<open>main\<close> raises its \<open>UserWarning\<close> exactly when the configured command and the
  joined \<open>--bash\<close> arguments are both empty, and then no process has been started.
\<close>

theorem main_needs_a_command:
  "((\<exists>msg. snd (main get_bash_opts render env ns job_id w) = Some (Inl (UserWarning msg)))
      = (get_bash_opts (app_name ns) = [] \<and> join_sp (bash_args ns) = []))
   \<and> (get_bash_opts (app_name ns) = [] \<and> join_sp (bash_args ns) = [] \<longrightarrow>
        snd (main get_bash_opts render env ns job_id w) = Some (Inl (UserWarning no_options_msg))
        \<and> calls (fst (main get_bash_opts render env ns job_id w)) = calls w)"
proof -
  have c: "(fst (build_cmd get_bash_opts ns w) = [])
             = (get_bash_opts (app_name ns) = [] \<and> join_sp (bash_args ns) = [])"
    by (auto simp: build_cmd_def Let_def)
  have "snd (main get_bash_opts render env ns job_id w) = Some (Inl (UserWarning no_options_msg))
        \<and> calls (fst (main get_bash_opts render env ns job_id w)) = calls w"
    if "fst (build_cmd get_bash_opts ns w) = []"
    using that by (auto simp: main_def build_cmd_def Let_def log_msg_def split: prod.splits if_splits)
  then show ?thesis
    using main_raises_UserWarning_iff [of get_bash_opts render env ns job_id w] c by blast
qed

text \<open>
  The witness: no configured command and no \<open>--bash\<close> raises; \<open>--bash echo hi\<close> does
  not.
\<close>

theorem main_needs_a_command_witness:
  "snd (main no_opts plain_render ok_env bare_ns ''j1'' world0)
     = Some (Inl (UserWarning no_options_msg))
   \<and> calls (fst (main no_opts plain_render ok_env bare_ns ''j1'' world0)) = []
   \<and> \<not> (\<exists>msg. snd (main no_opts plain_render ok_env demo_ns ''j1'' world0)
                 = Some (Inl (UserWarning msg)))"
  using main_needs_a_command [of no_opts plain_render ok_env bare_ns "''j1''" world0]
        main_needs_a_command [of no_opts plain_render ok_env demo_ns "''j1''" world0]
  by (simp add: no_opts_def bare_ns_def demo_ns_def bash_args_def world0_def)

section \<open>Properties of the testing tools\<close>

subsection \<open>Reading the store\<close>

lemma zk_exists_iff: "zk_exists zk p = (p \<in> fst ` set (nodes zk))"
  by (simp add: zk_exists_def map_of_eq_None_iff)

lemma zk_get_Inr_exists: "zk_get zk p = Inr d \<Longrightarrow> zk_exists zk p"
  by (auto simp: zk_get_def zk_exists_def split: option.splits)

lemma zk_get_total: "zk_exists zk p \<Longrightarrow> \<exists>d. zk_get zk p = Inr d"
  by (auto simp: zk_get_def zk_exists_def split: option.splits)

lemma zk_get_Inl: "(zk_get zk p = Inl e) = (e = NoNodeError \<and> \<not> zk_exists zk p)"
  by (auto simp: zk_get_def zk_exists_def split: option.splits)

lemma concat_map_filter_fst:
  "concat (map (\<lambda>(q, d). if P q then [f q] else []) xs) = map f (filter P (map fst xs))"
  by (induction xs) auto

lemma child_names_alt:
  "child_names zk p = map last (filter (\<lambda>q. q \<noteq> [] \<and> butlast q = p) (map fst (nodes zk)))"
  unfolding child_names_def by (simp add: concat_map_filter_fst)

lemma length_child_names:
  assumes "distinct (map fst (nodes zk))"
  shows "length (child_names zk p) = card {q. zk_exists zk q \<and> q \<noteq> [] \<and> butlast q = p}"
proof -
  let ?xs = "filter (\<lambda>q. q \<noteq> [] \<and> butlast q = p) (map fst (nodes zk))"
  have "distinct ?xs" using assms by simp
  then have "card (set ?xs) = length ?xs" by (rule distinct_card)
  moreover have "set ?xs = {q. zk_exists zk q \<and> q \<noteq> [] \<and> butlast q = p}"
    by (auto simp: zk_exists_iff)
  ultimately show ?thesis by (simp add: child_names_alt)
qed

lemma child_names_exist:
  assumes "x \<in> set (child_names zk p)"
  shows "zk_exists zk (p @ [x])"
proof -
  from assms obtain q where q: "q \<in> fst ` set (nodes zk)" "q \<noteq> []" "butlast q = p" "last q = x"
    unfolding child_names_alt by auto
  have "butlast q @ [last q] = q" using q(2) by simp
  then have "q = p @ [x]" using q(3,4) by simp
  then show ?thesis using q(1) by (simp add: zk_exists_iff)
qed

lemma child_names_iff:
  "(x \<in> set (child_names zk p)) = zk_exists zk (p @ [x])"
proof
  assume "x \<in> set (child_names zk p)"
  then show "zk_exists zk (p @ [x])" by (rule child_names_exist)
next
  assume "zk_exists zk (p @ [x])"
  then have "p @ [x] \<in> set (filter (\<lambda>q. q \<noteq> [] \<and> butlast q = p) (map fst (nodes zk)))"
    by (simp add: zk_exists_iff)
  then have "last (p @ [x]) \<in> last ` set (filter (\<lambda>q. q \<noteq> [] \<and> butlast q = p) (map fst (nodes zk)))"
    by (rule imageI)
  then show "x \<in> set (child_names zk p)"
    unfolding child_names_alt by simp
qed

lemma any_entry_is_children:
  assumes "set xs \<subseteq> set (child_names zk (app @ [''entries'']))"
  shows "any_entry_is zk app job_id xs =
           Inr (\<exists>x \<in> set xs. zk_get zk (app @ [''entries'', x]) = Inr job_id)"
  using assms
proof (induction xs)
  case Nil
  then show ?case by simp
next
  case (Cons x xs)
  then have "zk_exists zk ((app @ [''entries'']) @ [x])"
    by (simp add: child_names_iff)
  then obtain d where "zk_get zk ((app @ [''entries'']) @ [x]) = Inr d"
    using zk_get_total by blast
  then have d: "zk_get zk (app @ [''entries'', x]) = Inr d" by simp
  have ih: "any_entry_is zk app job_id xs =
           Inr (\<exists>x \<in> set xs. zk_get zk (app @ [''entries'', x]) = Inr job_id)"
    using Cons by simp
  show ?case by (simp add: d ih and_then_def)
qed

lemma len_children_or_empty_eq:
  "len_children_or_empty zk p = Inr (if zk_exists zk p then length (child_names zk p) else 0)"
  by (simp add: len_children_or_empty_def zk_get_children_def and_then_def)

lemma get_zk_status_missing:
  assumes "\<not> zk_exists zk (zpath app job_id)"
  shows "get_zk_status zpath zk app job_id = Inl NoNodeError"
proof -
  have g: "zk_get zk (zpath app job_id) = Inl NoNodeError"
    using assms by (simp add: zk_get_Inl)
  show ?thesis
    by (simp add: get_zk_status_def Let_def len_children_or_empty_eq zk_get_children_def
          and_then_def any_entry_is_children g)
qed

lemma get_zk_status_present:
  assumes "zk_get zk (zpath app job_id) = Inr st"
  shows "get_zk_status zpath zk app job_id =
          Inr \<lparr>num_add_locks =
                 (if zk_exists zk (zpath app job_id @ [''add_lock''])
                  then length (child_names zk (zpath app job_id @ [''add_lock''])) else 0),
               num_execute_locks =
                 (if zk_exists zk (zpath app job_id @ [''execute_lock''])
                  then length (child_names zk (zpath app job_id @ [''execute_lock''])) else 0),
               in_queue =
                 (zk_exists zk (app @ [''entries'']) \<and>
                  (\<exists>x \<in> set (child_names zk (app @ [''entries''])).
                     zk_get zk (app @ [''entries'', x]) = Inr job_id)),
               app_qsize =
                 (if zk_exists zk (app @ [''entries''])
                  then length (child_names zk (app @ [''entries''])) else 0),
               state = st\<rparr>"
  by (simp add: get_zk_status_def Let_def len_children_or_empty_eq zk_get_children_def
        and_then_def any_entry_is_children assms)

lemma wf_store_parent:
  assumes "wf_store zk" and "zk_exists zk q" and "butlast q = p" and "p \<noteq> []"
  shows "zk_exists zk p"
proof -
  from assms(2) obtain d where qd: "(q, d) \<in> set (nodes zk)"
    by (auto simp: zk_exists_iff)
  have "length q \<le> 1 \<or> map_of (nodes zk) (butlast q) \<noteq> None"
    using assms(1) qd by (auto simp: wf_store_def list_all_iff)
  moreover have "\<not> length q \<le> 1"
    using assms(3,4) by (cases q rule: rev_cases) auto
  ultimately show ?thesis using assms(3) by (simp add: zk_exists_def)
qed

lemma wf_store_count:
  assumes "wf_store zk" and "p \<noteq> []"
  shows "(if zk_exists zk p then length (child_names zk p) else 0)
           = card {q. zk_exists zk q \<and> q \<noteq> [] \<and> butlast q = p}"
proof (cases "zk_exists zk p")
  case True
  then show ?thesis using assms(1) by (simp add: length_child_names wf_store_def)
next
  case False
  have "\<not> (zk_exists zk q \<and> q \<noteq> [] \<and> butlast q = p)" for q
    using wf_store_parent [OF assms(1) _ _ assms(2), of q] False by blast
  then have "{q. zk_exists zk q \<and> q \<noteq> [] \<and> butlast q = p} = {}" by blast
  then show ?thesis using False by (simp only: if_False card.empty)
qed

lemma wf_store_queued:
  assumes "wf_store zk"
  shows "(zk_exists zk (app @ [''entries'']) \<and>
          (\<exists>x \<in> set (child_names zk (app @ [''entries''])).
             zk_get zk (app @ [''entries'', x]) = Inr job_id))
         = (\<exists>q. q \<noteq> [] \<and> butlast q = app @ [''entries''] \<and> zk_get zk q = Inr job_id)"
    (is "?lhs = ?rhs")
proof
  assume ?lhs
  then obtain x where "zk_get zk ((app @ [''entries'']) @ [x]) = Inr job_id" by auto
  moreover have "butlast ((app @ [''entries'']) @ [x]) = app @ [''entries'']"
    by (simp only: butlast_snoc)
  ultimately show ?rhs by blast
next
  assume ?rhs
  then obtain q where q: "q \<noteq> []" "butlast q = app @ [''entries'']" "zk_get zk q = Inr job_id"
    by blast
  have ex: "zk_exists zk q" using q(3) by (rule zk_get_Inr_exists)
  have dir: "zk_exists zk (app @ [''entries''])"
    using wf_store_parent [OF assms ex q(2)] by simp
  have "butlast q @ [last q] = q" using q(1) by simp
  then have qq: "q = (app @ [''entries'']) @ [last q]" using q(2) by simp
  then have "zk_exists zk ((app @ [''entries'']) @ [last q])" using ex by simp
  then have "last q \<in> set (child_names zk (app @ [''entries'']))"
    by (simp add: child_names_iff)
  moreover have "zk_get zk (app @ [''entries'', last q]) = Inr job_id"
    using q(3) qq by simp
  ultimately show ?lhs using dir by blast
qed

text \<open>The definitions that evaluate the status view on a concrete store.\<close>

lemmas status_eval =
  get_zk_status_def Let_def len_children_or_empty_def zk_exists_def zk_get_def
  zk_get_children_def child_names_def and_then_def spec_layout_def

subsection \<open>Claims about \<open>get_zk_status\<close>\<close>

text \<open>
  C7, as amended. For every app and job whose status node exists, the status view has
  the five fields \<open>state\<close>, \<open>in_queue\<close>, \<open>num_execute_locks\<close>, \<open>num_add_locks\<close>
  and \<open>app_qsize\<close> (the spec's \<open>queue_size\<close>): \<open>state\<close> is the payload of the status
  node, \<open>in_queue\<close> holds iff some node under the app's \<open>entries\<close> directory has the
  job id as payload, \<open>app_qsize\<close> is the number of nodes under that directory, and the
  lock counts are the numbers of nodes under the job's \<open>add_lock\<close> and
  \<open>execute_lock\<close> directories.
\<close>

theorem get_zk_status_fields:
  assumes "wf_store zk" and "zk_get zk (zpath app job_id) = Inr st"
  shows "get_zk_status zpath zk app job_id =
     Inr \<lparr>num_add_locks =
            card {q. zk_exists zk q \<and> q \<noteq> [] \<and> butlast q = zpath app job_id @ [''add_lock'']},
          num_execute_locks =
            card {q. zk_exists zk q \<and> q \<noteq> []
                     \<and> butlast q = zpath app job_id @ [''execute_lock'']},
          in_queue =
            (\<exists>q. q \<noteq> [] \<and> butlast q = app @ [''entries''] \<and> zk_get zk q = Inr job_id),
          app_qsize =
            card {q. zk_exists zk q \<and> q \<noteq> [] \<and> butlast q = app @ [''entries'']},
          state = st\<rparr>"
proof -
  have a: "zpath app job_id @ [''add_lock''] \<noteq> []"
    and e: "zpath app job_id @ [''execute_lock''] \<noteq> []"
    and q: "app @ [''entries''] \<noteq> []" by simp_all
  show ?thesis
    unfolding get_zk_status_present [of zk zpath app job_id st, OF assms(2)]
    by (simp only: wf_store_count [OF assms(1) a] wf_store_count [OF assms(1) e]
          wf_store_count [OF assms(1) q] wf_store_queued [OF assms(1)])
qed

text \<open>The witness: the store where \<open>job1\<close> is queued and claimed.\<close>

theorem get_zk_status_fields_witness:
  "wf_store claimed_store
   \<and> zk_get claimed_store (spec_layout [''app1''] ''job1'') = Inr ''pending''
   \<and> get_zk_status spec_layout claimed_store [''app1''] ''job1'' =
       Inr \<lparr>num_add_locks = 0, num_execute_locks = 1, in_queue = True, app_qsize = 1,
            state = ''pending''\<rparr>
   \<and> card {q. zk_exists claimed_store q \<and> q \<noteq> []
              \<and> butlast q = spec_layout [''app1''] ''job1'' @ [''execute_lock'']} = 1
   \<and> card {q. zk_exists claimed_store q \<and> q \<noteq> [] \<and> butlast q = [''app1''] @ [''entries'']} = 1"
proof -
  have h1: "wf_store claimed_store"
    by (simp add: wf_store_def claimed_store_def)
  have h2: "zk_get claimed_store (spec_layout [''app1''] ''job1'') = Inr ''pending''"
    by (simp add: zk_get_def claimed_store_def spec_layout_def)
  have v: "get_zk_status spec_layout claimed_store [''app1''] ''job1'' =
       Inr \<lparr>num_add_locks = 0, num_execute_locks = 1, in_queue = True, app_qsize = 1,
            state = ''pending''\<rparr>"
    by (simp add: status_eval claimed_store_def)
  show ?thesis
    using get_zk_status_fields [where zk = claimed_store and zpath = spec_layout
            and app = "[''app1'']" and job_id = "''job1''" and st = "''pending''", OF h1 h2]
          v h1 h2
    by simp
qed

text \<open>
  C7 as stated fails: for a job without a status node \<open>zk.get(path)\<close> raises and no
  field is returned.
\<close>

theorem get_zk_status_unknown_job_counterexample:
  "get_zk_status spec_layout claimed_store [''app1''] ''job2'' = Inl NoNodeError"
  by (simp add: status_eval claimed_store_def)

text \<open>
  C10, as amended. Provided the job's status node exists, the status view does not raise
  on missing directories: without the app's \<open>entries\<close> directory \<open>in_queue\<close> is false
  and \<open>app_qsize\<close> is 0, and without the job's \<open>add_lock\<close> or \<open>execute_lock\<close>
  directory the lock count is 0.
\<close>

theorem get_zk_status_missing_dirs:
  assumes "zk_get zk (zpath app job_id) = Inr st"
  shows "\<exists>s. get_zk_status zpath zk app job_id = Inr s
     \<and> state s = st
     \<and> (\<not> zk_exists zk (app @ [''entries'']) \<longrightarrow> in_queue s = False \<and> app_qsize s = 0)
     \<and> (\<not> zk_exists zk (zpath app job_id @ [''add_lock'']) \<longrightarrow> num_add_locks s = 0)
     \<and> (\<not> zk_exists zk (zpath app job_id @ [''execute_lock'']) \<longrightarrow> num_execute_locks s = 0)"
  unfolding get_zk_status_present [of zk zpath app job_id st, OF assms] by simp

text \<open>The witness: a store that holds nothing but the status node.\<close>

theorem get_zk_status_missing_dirs_witness:
  "zk_get pending_only (spec_layout [''app1''] ''job1'') = Inr ''pending''
   \<and> \<not> zk_exists pending_only ([''app1''] @ [''entries''])
   \<and> \<not> zk_exists pending_only (spec_layout [''app1''] ''job1'' @ [''add_lock''])
   \<and> \<not> zk_exists pending_only (spec_layout [''app1''] ''job1'' @ [''execute_lock''])
   \<and> get_zk_status spec_layout pending_only [''app1''] ''job1'' =
       Inr \<lparr>num_add_locks = 0, num_execute_locks = 0, in_queue = False, app_qsize = 0,
            state = ''pending''\<rparr>"
proof -
  have h: "zk_get pending_only (spec_layout [''app1''] ''job1'') = Inr ''pending''"
    by (simp add: zk_get_def pending_only_def spec_layout_def)
  have d: "\<not> zk_exists pending_only ([''app1''] @ [''entries''])"
    "\<not> zk_exists pending_only (spec_layout [''app1''] ''job1'' @ [''add_lock''])"
    "\<not> zk_exists pending_only (spec_layout [''app1''] ''job1'' @ [''execute_lock''])"
    by (simp_all add: zk_exists_def pending_only_def spec_layout_def)
  from get_zk_status_missing_dirs [where zk = pending_only and zpath = spec_layout
            and app = "[''app1'']" and job_id = "''job1''" and st = "''pending''", OF h] d
  obtain s where s: "get_zk_status spec_layout pending_only [''app1''] ''job1'' = Inr s"
    "state s = ''pending''" "in_queue s = False" "app_qsize s = 0"
    "num_add_locks s = 0" "num_execute_locks s = 0"
    by blast
  then have "s = \<lparr>num_add_locks = 0, num_execute_locks = 0, in_queue = False, app_qsize = 0,
            state = ''pending''\<rparr>"
    by (cases s) simp
  then show ?thesis using s(1) h d by simp
qed

text \<open>
  C10 as stated fails: the read of the status node is not guarded, so on the empty
  store, where the \<open>entries\<close> directory is missing too, the view raises
  \<open>NoNodeError\<close>.
\<close>

theorem get_zk_status_empty_store_counterexample:
  "\<not> zk_exists empty_store ([''app1''] @ [''entries''])
   \<and> get_zk_status spec_layout empty_store [''app1''] ''job1'' = Inl NoNodeError"
  by (simp add: status_eval empty_store_def)

section \<open>Properties of the coordination operations\<close>

subsection \<open>What the client reads after each primitive\<close>






text \<open>The counter does not matter to what the client reads.\<close>

lemma seq_update_views [simp]:
  "zk_exists (zk\<lparr>seq := n\<rparr>) q = zk_exists zk q"
  "zk_get (zk\<lparr>seq := n\<rparr>) q = zk_get zk q"
  "child_names (zk\<lparr>seq := n\<rparr>) p = child_names zk p"
  "entry_payloads (zk\<lparr>seq := n\<rparr>) p = entry_payloads zk p"
  by (simp_all add: zk_exists_def zk_get_def child_names_def entry_payloads_def)

text \<open>What the client reads after \<open>zk_create\<close>.\<close>

lemma seq_zk_create [simp]: "seq (zk_create p d zk) = seq zk"
  by (simp add: zk_create_def)





text \<open>What the client reads after \<open>zk_set\<close>.\<close>

lemma seq_zk_set [simp]: "seq (zk_set p d zk) = seq zk"
  by (simp add: zk_set_def)






text \<open>What the client reads after \<open>zk_delete\<close>.\<close>

lemma seq_zk_delete [simp]: "seq (zk_delete p zk) = seq zk"
  by (simp add: zk_delete_def)
















subsection \<open>Claims about \<open>enqueue\<close>\<close>




subsection \<open>Claims about \<open>mark_failed\<close>\<close>









end
